theory Spec2Isabelle
  imports Main "HOL-Library.Word"
begin

unbundle bit_operations_syntax

section \<open>bit.go: population count and bit scan\<close>

text \<open>
  Go's \<^verbatim>\<open>uint64\<close> is a 64-bit word; Go's \<^verbatim>\<open>int\<close> is modelled by \<^typ>\<open>int\<close>
  (no value in this development comes near the 64-bit limits).  A run-time panic of
  the Go code is the value \<^term>\<open>None\<close> of an option result.
\<close>

type_synonym u64 = "64 word"

text \<open>
  \<^verbatim>\<open>fmt.Sprintf("%b", b)\<close>: the binary digits of \<open>b\<close>, most significant first,
  without leading zeros; the string \<open>''0''\<close> for zero.
\<close>


fun fmt_b :: "nat \<Rightarrow> string" where
  "fmt_b n = (if n < 2 then [if n = 0 then CHR ''0'' else CHR ''1'']
              else fmt_b (n div 2) @ [if n mod 2 = 0 then CHR ''0'' else CHR ''1''])"

fun LastIndex :: "string \<Rightarrow> char \<Rightarrow> int" where
  "LastIndex [] c = -1"
| "LastIndex (x # xs) c =
     (let r = LastIndex xs c in if r \<noteq> -1 then r + 1 else if x = c then 0 else -1)"

definition bitScan :: "u64 \<Rightarrow> int \<Rightarrow> int option" where
  "bitScan b n =
     (let str = fmt_b (unat b); hi = int (length str) - n in
      if hi < 0 \<or> int (length str) < hi then None
      else (let r = LastIndex (take (nat hi) str) CHR ''1'' in
            if r = -1 then Some (-1) else Some (int (length str) - r - 1)))"

function popCount_loop :: "u64 \<Rightarrow> int \<Rightarrow> int" where
  "popCount_loop b count = (if b > 0 then popCount_loop (b AND (b - 1)) (count + 1) else count)"
  by pat_completeness auto
termination
proof (relation "measure (\<lambda>(b, c). unat b)")
  show "wf (measure (\<lambda>(b::u64, c::int). unat b))" by simp
next
  fix b :: u64 and count :: int
  assume "0 < b"
  then have "b - 1 < b" by (simp add: word_less_nat_alt unat_minus_one word_neq_0_conv)
  moreover have "b AND (b - 1) \<le> b - 1" by (rule word_and_le1)
  ultimately have "b AND (b - 1) < b" by simp
  then show "((b AND (b - 1), count + 1), (b, count)) \<in> measure (\<lambda>(b, c). unat b)"
    by (simp add: word_less_nat_alt)
qed

definition popCount :: "u64 \<Rightarrow> int" where
  "popCount b = popCount_loop b 0"


lemma LastIndex_ge: "- 1 \<le> LastIndex xs c"
  by (induction xs) (auto simp: Let_def)

lemma LastIndex_none: "LastIndex xs c = - 1 \<longleftrightarrow> c \<notin> set xs"
proof (induction xs)
  case Nil then show ?case by simp
next
  case (Cons x xs)
  have "- 1 \<le> LastIndex xs c" by (rule LastIndex_ge)
  with Cons show ?case by (auto simp: Let_def)
qed

lemma LastIndex_some:
  "c \<in> set xs \<Longrightarrow> 0 \<le> LastIndex xs c \<and> nat (LastIndex xs c) < length xs
     \<and> xs ! nat (LastIndex xs c) = c
     \<and> (\<forall>j. nat (LastIndex xs c) < j \<and> j < length xs \<longrightarrow> xs ! j \<noteq> c)"
proof (induction xs)
  case Nil then show ?case by simp
next
  case (Cons x xs)
  show ?case
  proof (cases "c \<in> set xs")
    case True
    with Cons.IH have ih: "0 \<le> LastIndex xs c" "nat (LastIndex xs c) < length xs"
      "xs ! nat (LastIndex xs c) = c"
      "\<forall>j. nat (LastIndex xs c) < j \<and> j < length xs \<longrightarrow> xs ! j \<noteq> c" by auto
    from True have ne: "LastIndex xs c \<noteq> - 1" by (simp add: LastIndex_none)
    have n: "nat (LastIndex xs c + 1) = Suc (nat (LastIndex xs c))" using ih(1) by simp
    show ?thesis using ih ne n
      apply (simp add: Let_def)
      apply (intro allI impI)
      subgoal for j by (cases j) auto
      done
  next
    case False
    then have "LastIndex xs c = - 1" by (simp add: LastIndex_none)
    moreover from False Cons.prems have "x = c" by simp
    ultimately show ?thesis using False
      by (auto simp: Let_def nth_Cons split: nat.splits)
  qed
qed

declare fmt_b.simps [simp del]

lemma fmt_b_length_pos: "0 < length (fmt_b n)"
  by (subst fmt_b.simps) simp

lemma fmt_b_bound: "n < 2 ^ length (fmt_b n)"
proof (induction n rule: fmt_b.induct)
  case (1 n)
  show ?case
  proof (cases "n < 2")
    case True then show ?thesis by (subst fmt_b.simps) simp
  next
    case False
    with 1 have "n div 2 < 2 ^ length (fmt_b (n div 2))" by simp
    then have "n < 2 * 2 ^ length (fmt_b (n div 2))" by linarith
    with False show ?thesis by (subst fmt_b.simps) simp
  qed
qed

lemma fmt_b_chars: "set (fmt_b n) \<subseteq> {CHR ''0'', CHR ''1''}"
proof (induction n rule: fmt_b.induct)
  case (1 n)
  show ?case
  proof (cases "n < 2")
    case True then show ?thesis by (subst fmt_b.simps) simp
  next
    case False
    with 1 show ?thesis by (subst fmt_b.simps) auto
  qed
qed

lemma fmt_b_nth:
  "p < length (fmt_b n) \<Longrightarrow> (fmt_b n ! p = CHR ''1'') = bit n (length (fmt_b n) - 1 - p)"
proof (induction n arbitrary: p rule: fmt_b.induct)
  case (1 n)
  show ?case
  proof (cases "n < 2")
    case True
    then have eq: "fmt_b n = [if n = 0 then CHR ''0'' else CHR ''1'']"
      by (subst fmt_b.simps) simp
    with "1.prems" have p: "p = 0" by simp
    from True have "n = 0 \<or> n = 1" by auto
    then show ?thesis using p by (auto simp: eq bit_0)
  next
    case False
    let ?xs = "fmt_b (n div 2)"
    have eq: "fmt_b n = ?xs @ [if n mod 2 = 0 then CHR ''0'' else CHR ''1'']"
      using False by (subst fmt_b.simps) simp
    have len: "length (fmt_b n) = Suc (length ?xs)" by (simp add: eq)
    show ?thesis
    proof (cases "p < length ?xs")
      case True
      have "(?xs ! p = CHR ''1'') = bit (n div 2) (length ?xs - 1 - p)"
        using "1.IH" False True by simp
      also have "\<dots> = bit n (Suc (length ?xs - 1 - p))" by (simp add: bit_Suc)
      also have "Suc (length ?xs - 1 - p) = length (fmt_b n) - 1 - p" using True len by simp
      finally show ?thesis using True by (simp add: eq nth_append)
    next
      case False
      with "1.prems" len have "p = length ?xs" by simp
      then show ?thesis by (auto simp: eq nth_append bit_0 odd_iff_mod_2_eq_one)
    qed
  qed
qed

lemma fmt_b_high: "length (fmt_b n) \<le> i \<Longrightarrow> \<not> bit n i"
proof -
  assume le: "length (fmt_b n) \<le> i"
  have "n < 2 ^ length (fmt_b n)" by (rule fmt_b_bound)
  moreover have "(2::nat) ^ length (fmt_b n) \<le> 2 ^ i" using le by simp
  ultimately have "n < 2 ^ i" by linarith
  then show "\<not> bit n i" by (simp add: bit_iff_odd)
qed


fun pcn :: "nat \<Rightarrow> nat" where
  "pcn n = (if n = 0 then 0 else n mod 2 + pcn (n div 2))"

declare pcn.simps [simp del]

lemma pcn_0: "pcn 0 = 0" by (subst pcn.simps) simp
lemma pcn_pos: "0 < n \<Longrightarrow> pcn n = n mod 2 + pcn (n div 2)" by (subst pcn.simps) simp

lemma and_pred_div2_odd: "odd (x::nat) \<Longrightarrow> x AND (x - 1) = 2 * (x div 2)"
proof -
  assume o: "odd x"
  then have e: "even (x - 1)" by simp
  from o obtain m where m: "x = 2 * m + 1" by (auto elim: oddE)
  have d: "(x - 1) div 2 = x div 2" by (simp add: m)
  have "x AND (x - 1) = of_bool (odd x \<and> odd (x - 1)) + 2 * ((x div 2) AND ((x - 1) div 2))"
    by (rule and_rec)
  then show ?thesis using e d by simp
qed

lemma and_pred_div2_even:
  "even (x::nat) \<Longrightarrow> 0 < x \<Longrightarrow> x AND (x - 1) = 2 * ((x div 2) AND (x div 2 - 1))"
proof -
  assume e: "even x" and p: "0 < x"
  then obtain m where m: "x = 2 * m" and mp: "0 < m" by (auto elim: evenE)
  have d: "(x - 1) div 2 = m - 1" using m mp by (cases m) auto
  have "x AND (x - 1) = of_bool (odd x \<and> odd (x - 1)) + 2 * ((x div 2) AND ((x - 1) div 2))"
    by (rule and_rec)
  then show ?thesis using e d m by simp
qed

lemma pcn_clear_lowest: "0 < x \<Longrightarrow> Suc (pcn (x AND (x - 1))) = pcn x"
proof (induction x rule: less_induct)
  case (less x)
  show ?case
  proof (cases "odd x")
    case True
    then have eq: "x AND (x - 1) = 2 * (x div 2)" by (rule and_pred_div2_odd)
    have "pcn (2 * (x div 2)) = pcn (x div 2)"
      by (cases "x div 2 = 0") (simp_all add: pcn_0 pcn_pos)
    moreover have "pcn x = 1 + pcn (x div 2)" using less.prems True
      by (simp add: pcn_pos odd_iff_mod_2_eq_one)
    ultimately show ?thesis unfolding eq by simp
  next
    case False
    then have ev: "even x" by simp
    let ?m = "x div 2"
    have mp: "0 < ?m" using ev less.prems by (auto elim: evenE)
    have ml: "?m < x" using less.prems by simp
    have eq: "x AND (x - 1) = 2 * (?m AND (?m - 1))" using ev less.prems
      by (rule and_pred_div2_even)
    have "pcn (2 * (?m AND (?m - 1))) = pcn (?m AND (?m - 1))"
      by (cases "?m AND (?m - 1) = 0") (simp_all add: pcn_0 pcn_pos)
    moreover have "pcn x = pcn ?m" using less.prems ev by (simp add: pcn_pos)
    moreover have "Suc (pcn (?m AND (?m - 1))) = pcn ?m" using less.IH ml mp by simp
    ultimately show ?thesis unfolding eq by simp
  qed
qed

lemma bit_nat_less: "bit (x::nat) i \<Longrightarrow> i < x"
proof (rule ccontr)
  assume b: "bit x i" and "\<not> i < x"
  then have "x \<le> i" by simp
  also have "i < 2 ^ i" by simp
  finally have "x < 2 ^ i" .
  with b show False by (simp add: bit_iff_odd)
qed

lemma finite_bits_nat: "finite {i. bit (x::nat) i}"
proof (rule finite_subset)
  show "{i. bit x i} \<subseteq> {..<x}" by (auto dest: bit_nat_less)
qed simp

lemma bits_nat_split:
  "{i. bit (x::nat) i} = (if odd x then {0} else {}) \<union> Suc ` {i. bit (x div 2) i}"
proof (rule set_eqI)
  fix i show "i \<in> {i. bit x i} \<longleftrightarrow> i \<in> (if odd x then {0} else {}) \<union> Suc ` {i. bit (x div 2) i}"
    by (cases i) (auto simp: bit_0 bit_Suc)
qed

lemma pcn_card: "pcn x = card {i. bit x i}"
proof (induction x rule: less_induct)
  case (less x)
  show ?case
  proof (cases "x = 0")
    case True then show ?thesis by (simp add: pcn_0)
  next
    case False
    then have ih: "pcn (x div 2) = card {i. bit (x div 2) i}" using less.IH by simp
    have fin: "finite (Suc ` {i. bit (x div 2) i})" by (simp add: finite_bits_nat)
    have c: "card (Suc ` {i. bit (x div 2) i}) = card {i. bit (x div 2) i}"
      by (rule card_image) simp
    have "card {i. bit x i} = (if odd x then 1 else 0) + card {i. bit (x div 2) i}"
      by (subst bits_nat_split) (auto simp: fin c)
    moreover have "pcn x = x mod 2 + pcn (x div 2)" using False by (simp add: pcn_pos)
    ultimately show ?thesis using ih by (auto simp: odd_iff_mod_2_eq_one)
  qed
qed

declare popCount_loop.simps [simp del]

lemma popCount_loop_pcn: "popCount_loop b c = c + int (pcn (unat b))"
proof (induction b c rule: popCount_loop.induct)
  case (1 b count)
  show ?case
  proof (cases "0 < b")
    case True
    then have nz: "b \<noteq> 0" by auto
    then have up: "0 < unat b" by (simp add: unat_gt_0)
    have "unat (b AND (b - 1)) = unat b AND (unat b - 1)"
      by (simp add: unsigned_and_eq unat_minus_one nz)
    then have "Suc (pcn (unat (b AND (b - 1)))) = pcn (unat b)"
      using pcn_clear_lowest [OF up] by simp
    then have "int (pcn (unat b)) = int (pcn (unat (b AND (b - 1)))) + 1" by simp
    moreover have "popCount_loop b count = popCount_loop (b AND (b - 1)) (count + 1)"
      using True by (subst popCount_loop.simps) simp
    moreover have "popCount_loop (b AND (b - 1)) (count + 1)
        = count + 1 + int (pcn (unat (b AND (b - 1))))" using 1 True by simp
    ultimately show ?thesis by simp
  next
    case False
    then have "b = 0" by (simp add: word_gt_0)
    then show ?thesis by (subst popCount_loop.simps) (simp add: pcn_0)
  qed
qed

lemma popCount_card: "popCount b = int (card {i. bit b i})"
proof -
  have "{i. bit (unat b) i} = {i. bit b i}" by (simp add: bit_unsigned_iff)
  then show ?thesis by (simp add: popCount_def popCount_loop_pcn pcn_card)
qed

lemma take_ones_iff:
  assumes nL: "m \<le> length (fmt_b x)"
  shows "CHR ''1'' \<in> set (take (length (fmt_b x) - m) (fmt_b x)) \<longleftrightarrow> (\<exists>i. m \<le> i \<and> bit x i)"
proof
  define L where "L = length (fmt_b x)"
  assume "CHR ''1'' \<in> set (take (length (fmt_b x) - m) (fmt_b x))"
  then obtain p where p: "p < L - m" "p < L" "fmt_b x ! p = CHR ''1''"
    unfolding L_def by (auto simp: in_set_conv_nth)
  from fmt_b_nth [of p x] p have "bit x (L - 1 - p)" by (simp add: L_def)
  moreover have "m \<le> L - 1 - p" using p(1) by arith
  ultimately show "\<exists>i. m \<le> i \<and> bit x i" by blast
next
  define L where "L = length (fmt_b x)"
  assume "\<exists>i. m \<le> i \<and> bit x i"
  then obtain i where i: "m \<le> i" "bit x i" by blast
  have iL: "i < L"
  proof (rule ccontr)
    assume "\<not> i < L"
    then have "length (fmt_b x) \<le> i" by (simp add: L_def)
    from fmt_b_high [OF this] i(2) show False by simp
  qed
  define p where "p = L - 1 - i"
  have pk: "p < L - m" and pL: "p < L" and bk: "L - 1 - p = i"
    using iL i(1) unfolding p_def by arith+
  from fmt_b_nth [of p x] pL bk i(2) have "fmt_b x ! p = CHR ''1''" by (simp add: L_def)
  then have "take (L - m) (fmt_b x) ! p = CHR ''1''" using pk by simp
  moreover have "p < length (take (L - m) (fmt_b x))" using pk pL by (simp add: L_def)
  ultimately show "CHR ''1'' \<in> set (take (length (fmt_b x) - m) (fmt_b x))"
    unfolding L_def [symmetric] by (metis nth_mem)
qed

lemma take_last_one_least:
  assumes mem: "CHR ''1'' \<in> set (take (length (fmt_b x) - m) (fmt_b x))"
  shows "length (fmt_b x) - 1 - nat (LastIndex (take (length (fmt_b x) - m) (fmt_b x)) CHR ''1'')
           = (LEAST i. m \<le> i \<and> bit x i)
         \<and> nat (LastIndex (take (length (fmt_b x) - m) (fmt_b x)) CHR ''1'') < length (fmt_b x)
         \<and> 0 \<le> LastIndex (take (length (fmt_b x) - m) (fmt_b x)) CHR ''1''"
proof -
  define L where "L = length (fmt_b x)"
  define xs where "xs = take (L - m) (fmt_b x)"
  define r where "r = nat (LastIndex xs CHR ''1'')"
  have m': "CHR ''1'' \<in> set xs" using mem by (simp add: xs_def L_def)
  from LastIndex_some [OF m'] have r0: "0 \<le> LastIndex xs CHR ''1''" and rl: "r < length xs"
      and rn: "xs ! r = CHR ''1''"
      and rmax: "\<forall>j. r < j \<and> j < length xs \<longrightarrow> xs ! j \<noteq> CHR ''1''"
    unfolding r_def by auto
  have lx: "length xs \<le> L - m" by (simp add: xs_def L_def)
  have lx2: "length xs = min L (L - m)" by (simp add: xs_def L_def)
  have rk: "r < L - m" and rL: "r < L" using rl lx by arith+
  have "fmt_b x ! r = CHR ''1''" using rn rk by (simp add: xs_def)
  with fmt_b_nth [of r x] rL have bi: "bit x (L - 1 - r)" by (simp add: L_def)
  have ni: "m \<le> L - 1 - r" using rk by arith
  have "(LEAST i. m \<le> i \<and> bit x i) = L - 1 - r"
  proof (rule Least_equality)
    show "m \<le> L - 1 - r \<and> bit x (L - 1 - r)" using bi ni by simp
  next
    fix y assume y: "m \<le> y \<and> bit x y"
    show "L - 1 - r \<le> y"
    proof (rule ccontr)
      assume "\<not> L - 1 - r \<le> y"
      then have yl: "y < L - 1 - r" by simp
      define j where "j = L - 1 - y"
      have jk: "j < L - m" and jL: "j < L" and jr: "r < j" and bk: "L - 1 - j = y"
        using y yl unfolding j_def by arith+
      from fmt_b_nth [of j x] jL bk y have "fmt_b x ! j = CHR ''1''" by (simp add: L_def)
      then have "xs ! j = CHR ''1''" using jk by (simp add: xs_def)
      moreover have "j < length xs" using jk jL lx2 by simp
      ultimately show False using rmax jr by blast
    qed
  qed
  then show ?thesis using r0 rL unfolding r_def xs_def L_def by simp
qed

lemma bitScan_in_range:
  assumes n0: "0 \<le> n" and nl: "n \<le> int (length (fmt_b (unat b)))"
  shows "bitScan b n =
           Some (if \<exists>i. nat n \<le> i \<and> bit b i then int (LEAST i. nat n \<le> i \<and> bit b i) else - 1)"
proof -
  define L where "L = length (fmt_b (unat b))"
  define xs where "xs = take (L - nat n) (fmt_b (unat b))"
  define r where "r = LastIndex xs CHR ''1''"
  have bitb: "\<And>i. bit (unat b) i = bit b i" by (simp add: bit_unsigned_iff)
  have hi: "nat (int L - n) = L - nat n" using n0 by arith
  have rng: "\<not> (int L - n < 0 \<or> int L < int L - n)" using n0 nl unfolding L_def by arith
  have bs: "bitScan b n = (if r = - 1 then Some (- 1) else Some (int L - r - 1))"
    unfolding bitScan_def Let_def L_def [symmetric] using rng
    by (simp only: if_False hi xs_def [symmetric] r_def [symmetric])
  have nL: "nat n \<le> length (fmt_b (unat b))" using nl by arith
  have mem: "CHR ''1'' \<in> set xs \<longleftrightarrow> (\<exists>i. nat n \<le> i \<and> bit b i)"
    using take_ones_iff [OF nL] unfolding xs_def L_def bitb .
  show ?thesis
  proof (cases "\<exists>i. nat n \<le> i \<and> bit b i")
    case False
    with mem have "r = - 1" unfolding r_def by (simp add: LastIndex_none)
    with False show ?thesis by (simp add: bs)
  next
    case True
    with mem have m: "CHR ''1'' \<in> set (take (length (fmt_b (unat b)) - nat n) (fmt_b (unat b)))"
      unfolding xs_def L_def by simp
    from take_last_one_least [OF m]
    have le: "L - 1 - nat r = (LEAST i. nat n \<le> i \<and> bit b i)" and rL: "nat r < L" and r0: "0 \<le> r"
      unfolding r_def xs_def L_def bitb by auto
    have ne: "r \<noteq> - 1" using r0 by simp
    have "int L - r - 1 = int (L - 1 - nat r)" using rL r0 by arith
    with True ne le show ?thesis by (simp add: bs)
  qed
qed

lemma bitScan_fault_iff: "bitScan b n = None \<longleftrightarrow> n < 0 \<or> int (length (fmt_b (unat b))) < n"
  by (auto simp: bitScan_def Let_def)

section \<open>piece.go, move.go: pieces and moves\<close>

text \<open>
  The piece kinds and colours are Go integer enumerations.  Their declarations are not
  among the source files; the order of the kinds is fixed by the hash index
  \<^verbatim>\<open>(int(pieceType)-1)*2\<close> of \<^verbatim>\<open>SetPieceAt\<close> and by \<^verbatim>\<open>PieceSymbols[p.pieceType]\<close>,
  the colours by \<^verbatim>\<open>[2]uint64{BBRank1 | BBRank2, BBRank7 | BBRank8}\<close> in \<^verbatim>\<open>Reset\<close>.
  The kind \<^verbatim>\<open>None\<close> is written \<open>NoneP\<close> here.
\<close>

datatype PieceTypes = NoneP | Pawn | Knight | Bishop | Rook | Queen | King

datatype Colors = White | Black

fun pt_int :: "PieceTypes \<Rightarrow> int" where
  "pt_int NoneP = 0" | "pt_int Pawn = 1" | "pt_int Knight = 2" | "pt_int Bishop = 3"
| "pt_int Rook = 4" | "pt_int Queen = 5" | "pt_int King = 6"

text \<open>The conversion \<^verbatim>\<open>PieceTypes(i)\<close> of an index of \<^verbatim>\<open>PieceSymbols\<close>.\<close>

definition pt_of_index :: "nat \<Rightarrow> PieceTypes" where
  "pt_of_index i = [NoneP, Pawn, Knight, Bishop, Rook, Queen, King] ! i"

text \<open>\<^verbatim>\<open>color ^ 1\<close>\<close>

fun other :: "Colors \<Rightarrow> Colors" where
  "other White = Black" | "other Black = White"

record Move =
  fromSquare :: int
  toSquare :: int
  promotion :: PieceTypes

definition NewMove :: "int \<Rightarrow> int \<Rightarrow> PieceTypes \<Rightarrow> Move" where
  "NewMove f t p = \<lparr>fromSquare = f, toSquare = t, promotion = p\<rparr>"

text \<open>
  Modelled from the spec: the name tables \<^verbatim>\<open>SquareNames\<close> and \<^verbatim>\<open>PieceSymbols\<close> are
  declared outside the source files.  The spec fixes squares as integers 0--63 with a
  file/rank decomposition and a fixed name table (square 0 is a1, UCI strings such as
  \<^verbatim>\<open>a7a8q\<close>); \<^verbatim>\<open>Uci\<close> appends \<^verbatim>\<open>PieceSymbols[m.promotion]\<close>, so the entry of \<^verbatim>\<open>None\<close>
  is the empty string and the others are the lower-case letters of \<^verbatim>\<open>Piece.String\<close>.
\<close>

definition SquareNames :: "string list" where
  "SquareNames = concat (map (\<lambda>r. map (\<lambda>f. [f, r]) ''abcdefgh'') ''12345678'')"

definition PieceSymbols :: "string list" where
  "PieceSymbols = ['''', ''p'', ''n'', ''b'', ''r'', ''q'', ''k'']"

text \<open>
  The loop \<^verbatim>\<open>for i := range SquareNames { if SquareNames[i] == s { sq = i } }\<close> over a
  variable that starts at 0: the last matching index wins, 0 remains when none matches.
\<close>

definition square_loop :: "string \<Rightarrow> int" where
  "square_loop s = foldl (\<lambda>sq i. if SquareNames ! i = s then int i else sq) 0 [0..<length SquareNames]"

text \<open>
  The loop over \<^verbatim>\<open>PieceSymbols\<close> with \<^verbatim>\<open>break\<close>: the first matching index, converted to a
  piece kind; the zero value \<^verbatim>\<open>None\<close> when no symbol matches.
\<close>

fun symbol_loop :: "string list \<Rightarrow> nat \<Rightarrow> string \<Rightarrow> PieceTypes" where
  "symbol_loop [] i s = NoneP"
| "symbol_loop (y # ys) i s = (if s = y then pt_of_index i else symbol_loop ys (Suc i) s)"

text \<open>
  Go's conversion \<^verbatim>\<open>string(uci[4])\<close> of a byte: the UTF-8 encoding of the code point with
  that number, one byte below 128 and two bytes from 128 on.
\<close>

definition string_of_byte :: "char \<Rightarrow> string" where
  "string_of_byte c =
     (if (of_char c :: nat) < 128 then [c]
      else [char_of (192 + (of_char c :: nat) div 64), char_of (128 + (of_char c :: nat) mod 64)])"

text \<open>
  \<^verbatim>\<open>MoveFromUci\<close>; a Go string is its byte sequence, \<^verbatim>\<open>len\<close> counts bytes, and the
  \<^verbatim>\<open>nil\<close> pointer is \<^term>\<open>None\<close>.
\<close>

definition MoveFromUci :: "string \<Rightarrow> Move option" where
  "MoveFromUci uci =
     (if uci = ''0000'' then None
      else if length uci = 4 then
        Some (NewMove (square_loop (take 2 uci)) (square_loop (take 2 (drop 2 uci))) NoneP)
      else if length uci = 5 then
        Some (NewMove (square_loop (take 2 uci)) (square_loop (take 2 (drop 2 uci)))
               (symbol_loop PieceSymbols 0 (string_of_byte (uci ! 4))))
      else None)"

section \<open>bitboard.go: the position\<close>

subsection \<open>Constants and tables declared outside the source files\<close>

text \<open>
  Modelled from the spec: the square numbering, the square and rank masks, the shift
  helpers and the castling flags are declared outside the source files.  Squares are the
  integers 0--63, rank by rank from a1 (\<^verbatim>\<open>toSquare - 8\<close> is one rank down, the promotion
  rank of White has \<^verbatim>\<open>rankIndex\<close> 7); \<^verbatim>\<open>BBSquares[i]\<close> is the one-bit mask of square
  \<open>i\<close>, as \<^verbatim>\<open>bitScan\<close> on a mask is used to get squares back.  The four castling rights
  are four distinct flag bits.
\<close>

definition A1 :: int where "A1 = 0"
definition B1 :: int where "B1 = 1"
definition C1 :: int where "C1 = 2"
definition D1 :: int where "D1 = 3"
definition E1 :: int where "E1 = 4"
definition F1 :: int where "F1 = 5"
definition G1 :: int where "G1 = 6"
definition H1 :: int where "H1 = 7"
definition A8 :: int where "A8 = 56"
definition B8 :: int where "B8 = 57"
definition C8 :: int where "C8 = 58"
definition D8 :: int where "D8 = 59"
definition E8 :: int where "E8 = 60"
definition F8 :: int where "F8 = 61"
definition G8 :: int where "G8 = 62"
definition H8 :: int where "H8 = 63"

lemmas square_defs = A1_def B1_def C1_def D1_def E1_def F1_def G1_def H1_def
  A8_def B8_def C8_def D8_def E8_def F8_def G8_def H8_def

definition BBSquares :: "int \<Rightarrow> u64" where
  "BBSquares i = push_bit (nat i) 1"

definition rankIndex :: "int \<Rightarrow> int" where
  "rankIndex square = square div 8"

definition fileIndex :: "int \<Rightarrow> int" where
  "fileIndex square = square mod 8"

definition BBVoid :: u64 where "BBVoid = 0"
definition BBRank1 :: u64 where "BBRank1 = 0xFF"
definition BBRank2 :: u64 where "BBRank2 = 0xFF00"
definition BBRank4 :: u64 where "BBRank4 = 0xFF000000"
definition BBRank5 :: u64 where "BBRank5 = 0xFF00000000"
definition BBRank7 :: u64 where "BBRank7 = 0xFF000000000000"
definition BBRank8 :: u64 where "BBRank8 = 0xFF00000000000000"
definition BBFileA :: u64 where "BBFileA = 0x0101010101010101"
definition BBFileH :: u64 where "BBFileH = 0x8080808080808080"

lemmas mask_defs = BBVoid_def BBRank1_def BBRank2_def BBRank4_def BBRank5_def BBRank7_def
  BBRank8_def BBFileA_def BBFileH_def

definition shiftUp :: "u64 \<Rightarrow> u64" where "shiftUp b = push_bit 8 b"
definition shiftDown :: "u64 \<Rightarrow> u64" where "shiftDown b = drop_bit 8 b"
definition shiftRight :: "u64 \<Rightarrow> u64" where "shiftRight b = push_bit 1 b AND NOT BBFileA"
definition shiftLeft :: "u64 \<Rightarrow> u64" where "shiftLeft b = drop_bit 1 b AND NOT BBFileH"
definition shiftUpLeft :: "u64 \<Rightarrow> u64" where "shiftUpLeft b = push_bit 7 b AND NOT BBFileH"
definition shiftUpRight :: "u64 \<Rightarrow> u64" where "shiftUpRight b = push_bit 9 b AND NOT BBFileA"
definition shiftDownLeft :: "u64 \<Rightarrow> u64" where "shiftDownLeft b = drop_bit 9 b AND NOT BBFileH"
definition shiftDownRight :: "u64 \<Rightarrow> u64" where "shiftDownRight b = drop_bit 7 b AND NOT BBFileA"

lemmas shift_defs = shiftUp_def shiftDown_def shiftRight_def shiftLeft_def shiftUpLeft_def
  shiftUpRight_def shiftDownLeft_def shiftDownRight_def

definition CastlingNone :: int where "CastlingNone = 0"
definition CastlingWhiteKingSide :: int where "CastlingWhiteKingSide = 1"
definition CastlingBlackKingSide :: int where "CastlingBlackKingSide = 2"
definition CastlingWhiteQueenSide :: int where "CastlingWhiteQueenSide = 4"
definition CastlingBlackQueenSide :: int where "CastlingBlackQueenSide = 8"
definition CastlingWhite :: int where "CastlingWhite = CastlingWhiteKingSide OR CastlingWhiteQueenSide"
definition CastlingBlack :: int where "CastlingBlack = CastlingBlackKingSide OR CastlingBlackQueenSide"
definition Castling :: int where "Castling = CastlingWhite OR CastlingBlack"

lemmas castling_defs = CastlingNone_def CastlingWhiteKingSide_def CastlingBlackKingSide_def
  CastlingWhiteQueenSide_def CastlingBlackQueenSide_def CastlingWhite_def CastlingBlack_def
  Castling_def

text \<open>
  Modelled from the spec: the knight, king and pawn tables hold one fixed mask per
  square (and per colour for pawns: single push, double push from the starting rank,
  diagonal captures).  They are written with the shift helpers, which drop what leaves
  the board.
\<close>

definition BBKnightAttacks :: "int \<Rightarrow> u64" where
  "BBKnightAttacks sq = (let m = BBSquares sq in
     shiftUp (shiftUpLeft m) OR shiftUp (shiftUpRight m)
     OR shiftLeft (shiftUpLeft m) OR shiftRight (shiftUpRight m)
     OR shiftDown (shiftDownLeft m) OR shiftDown (shiftDownRight m)
     OR shiftLeft (shiftDownLeft m) OR shiftRight (shiftDownRight m))"

definition BBKingAttacks :: "int \<Rightarrow> u64" where
  "BBKingAttacks sq = (let m = BBSquares sq in
     shiftLeft m OR shiftRight m OR shiftUp m OR shiftDown m
     OR shiftUpLeft m OR shiftUpRight m OR shiftDownLeft m OR shiftDownRight m)"

fun BBPawnAttacks :: "Colors \<Rightarrow> int \<Rightarrow> u64" where
  "BBPawnAttacks White sq = shiftUpLeft (BBSquares sq) OR shiftUpRight (BBSquares sq)"
| "BBPawnAttacks Black sq = shiftDownLeft (BBSquares sq) OR shiftDownRight (BBSquares sq)"

fun BBPawnF1 :: "Colors \<Rightarrow> int \<Rightarrow> u64" where
  "BBPawnF1 White sq = shiftUp (BBSquares sq)"
| "BBPawnF1 Black sq = shiftDown (BBSquares sq)"

fun BBPawnF2 :: "Colors \<Rightarrow> int \<Rightarrow> u64" where
  "BBPawnF2 White sq = shiftUp (shiftUp (BBSquares sq)) AND BBRank4"
| "BBPawnF2 Black sq = shiftDown (shiftDown (BBSquares sq)) AND BBRank5"

text \<open>
  The remaining tables stay parameters of the model: the three square rotations (as
  index tables and as mask tables), the four slider attack tables indexed by a square
  and a six-bit occupancy slice, the two diagonal shift tables, and the table of 781
  hashing constants.
\<close>

record Tables =
  SquaresL90 :: "int \<Rightarrow> int"
  SquaresL45 :: "int \<Rightarrow> int"
  SquaresR45 :: "int \<Rightarrow> int"
  BBSquaresL90 :: "int \<Rightarrow> u64"
  BBSquaresL45 :: "int \<Rightarrow> u64"
  BBSquaresR45 :: "int \<Rightarrow> u64"
  BBRankAttacks :: "int \<Rightarrow> u64 \<Rightarrow> u64"
  BBFileAttacks :: "int \<Rightarrow> u64 \<Rightarrow> u64"
  BBR45Attacks :: "int \<Rightarrow> u64 \<Rightarrow> u64"
  BBL45Attacks :: "int \<Rightarrow> u64 \<Rightarrow> u64"
  BBShiftR45 :: "int \<Rightarrow> nat"
  BBShiftL45 :: "int \<Rightarrow> nat"
  PolyglotRandomArray :: "int \<Rightarrow> u64"

subsection \<open>The position record\<close>

text \<open>
  The struct \<^verbatim>\<open>Bitboard\<close>.  The arrays \<^verbatim>\<open>occupiedCo\<close>, \<^verbatim>\<open>kingSquares\<close> and \<^verbatim>\<open>pieces\<close> are
  functions of their index; an index outside 0--63 panics in Go and is outside every
  statement below.  The five \<^verbatim>\<open>Stack\<close>s (declared outside the source files, last in
  first out) are lists with the top at the head.  The Go map \<^verbatim>\<open>transpositions\<close> is a
  partial map; reading an absent key gives 0 (\<open>count_of\<close>).
\<close>

record Piece =
  pieceType :: PieceTypes
  color :: Colors

definition NewPiece :: "PieceTypes \<Rightarrow> Colors \<Rightarrow> Piece" where
  "NewPiece p c = \<lparr>pieceType = p, color = c\<rparr>"

record Bitboard =
  pawns :: u64
  knights :: u64
  bishops :: u64
  rooks :: u64
  queens :: u64
  kings :: u64
  occupiedCo :: "Colors \<Rightarrow> u64"
  occupied :: u64
  occupiedL90 :: u64
  occupiedL45 :: u64
  occupiedR45 :: u64
  kingSquares :: "Colors \<Rightarrow> int"
  pieces :: "int \<Rightarrow> PieceTypes"
  epSquare :: int
  castlingRights :: int
  turn :: Colors
  fullMoveNumber :: int
  halfMoveClock :: int
  halfMoveClockStack :: "int list"
  capturedPieceStack :: "PieceTypes list"
  castlingRightStack :: "int list"
  epSquareStack :: "int list"
  moveStack :: "Move option list"
  incrementalZobristHash :: u64
  transpositions :: "u64 \<rightharpoonup> int"

definition count_of :: "(u64 \<rightharpoonup> int) \<Rightarrow> u64 \<Rightarrow> int" where
  "count_of t h = (case t h of None \<Rightarrow> 0 | Some n \<Rightarrow> n)"

definition PieceTypeAt :: "Bitboard \<Rightarrow> int \<Rightarrow> PieceTypes" where
  "PieceTypeAt b square = pieces b square"

text \<open>The hash index of a piece: \<^verbatim>\<open>64*pieceIndex + 8*rankIndex(square) + fileIndex(square)\<close>.\<close>

definition hash_index :: "PieceTypes \<Rightarrow> Colors \<Rightarrow> int \<Rightarrow> int" where
  "hash_index p c square =
     (let pieceIndex = (if c = Black then (pt_int p - 1) * 2 else (pt_int p - 1) * 2 + 1)
      in 64 * pieceIndex + 8 * rankIndex square + fileIndex square)"

definition RemovePieceAt :: "Tables \<Rightarrow> Bitboard \<Rightarrow> int \<Rightarrow> Bitboard" where
  "RemovePieceAt T b square =
     (let pt = pieces b square in
      if pt = NoneP then b
      else
        let mask = BBSquares square;
            b1 = (if pt = Pawn then b\<lparr>pawns := pawns b XOR mask\<rparr>
                  else if pt = Knight then b\<lparr>knights := knights b XOR mask\<rparr>
                  else if pt = Bishop then b\<lparr>bishops := bishops b XOR mask\<rparr>
                  else if pt = Rook then b\<lparr>rooks := rooks b XOR mask\<rparr>
                  else if pt = Queen then b\<lparr>queens := queens b XOR mask\<rparr>
                  else b\<lparr>kings := kings b XOR mask\<rparr>);
            c = (if occupiedCo b Black AND mask > 0 then Black else White)
        in b1\<lparr>pieces := (pieces b)(square := NoneP),
               occupied := occupied b XOR mask,
               occupiedCo := (occupiedCo b)(c := occupiedCo b c XOR mask),
               occupiedL90 := occupiedL90 b XOR BBSquares (SquaresL90 T square),
               occupiedR45 := occupiedR45 b XOR BBSquares (SquaresR45 T square),
               occupiedL45 := occupiedL45 b XOR BBSquares (SquaresL45 T square),
               incrementalZobristHash :=
                 incrementalZobristHash b XOR PolyglotRandomArray T (hash_index pt c square)\<rparr>)"

definition SetPieceAt :: "Tables \<Rightarrow> Bitboard \<Rightarrow> int \<Rightarrow> Piece \<Rightarrow> Bitboard" where
  "SetPieceAt T b0 square piece =
     (let b = RemovePieceAt T b0 square;
          pt = pieceType piece;
          mask = BBSquares square;
          b1 = (if pt = Pawn then b\<lparr>pawns := pawns b OR mask\<rparr>
                else if pt = Knight then b\<lparr>knights := knights b OR mask\<rparr>
                else if pt = Bishop then b\<lparr>bishops := bishops b OR mask\<rparr>
                else if pt = Rook then b\<lparr>rooks := rooks b OR mask\<rparr>
                else if pt = Queen then b\<lparr>queens := queens b OR mask\<rparr>
                else if pt = King then b\<lparr>kings := kings b OR mask,
                                         kingSquares := (kingSquares b)(color piece := square)\<rparr>
                else b)
      in b1\<lparr>pieces := (pieces b)(square := pt),
             occupied := occupied b XOR mask,
             occupiedCo := (occupiedCo b)(color piece := occupiedCo b (color piece) XOR mask),
             occupiedL90 := occupiedL90 b XOR BBSquares (SquaresL90 T square),
             occupiedR45 := occupiedR45 b XOR BBSquares (SquaresR45 T square),
             occupiedL45 := occupiedL45 b XOR BBSquares (SquaresL45 T square),
             incrementalZobristHash :=
               incrementalZobristHash b XOR PolyglotRandomArray T (hash_index pt (color piece) square)\<rparr>)"

subsection \<open>Attack lookups\<close>

definition KnightAttacksFrom :: "Bitboard \<Rightarrow> int \<Rightarrow> u64" where
  "KnightAttacksFrom b square = BBKnightAttacks square"

definition KingAttacksFrom :: "Bitboard \<Rightarrow> int \<Rightarrow> u64" where
  "KingAttacksFrom b square = BBKingAttacks square"

text \<open>
  \<^verbatim>\<open>uint(square)\<close> is the 64-bit word of the square; a Go shift by 64 or more gives 0, as
  \<^term>\<open>drop_bit\<close> does.
\<close>

definition RookAttacksFrom :: "Tables \<Rightarrow> Bitboard \<Rightarrow> int \<Rightarrow> u64" where
  "RookAttacksFrom T b square =
     (BBRankAttacks T square
        (drop_bit (unat (((word_of_int square :: u64) AND NOT 7) + 1)) (occupied b) AND 63)
      OR BBFileAttacks T square
        (drop_bit (unat (push_bit 3 ((word_of_int square :: u64) AND 7) + 1)) (occupiedL90 b) AND 63))"

definition BishopAttacksFrom :: "Tables \<Rightarrow> Bitboard \<Rightarrow> int \<Rightarrow> u64" where
  "BishopAttacksFrom T b square =
     (BBR45Attacks T square (drop_bit (BBShiftR45 T square) (occupiedR45 b) AND 63)
      OR BBL45Attacks T square (drop_bit (BBShiftL45 T square) (occupiedL45 b) AND 63))"

definition QueenAttacksFrom :: "Tables \<Rightarrow> Bitboard \<Rightarrow> int \<Rightarrow> u64" where
  "QueenAttacksFrom T b square = RookAttacksFrom T b square OR BishopAttacksFrom T b square"

definition IsAttackedBy :: "Tables \<Rightarrow> Bitboard \<Rightarrow> Colors \<Rightarrow> int \<Rightarrow> bool" where
  "IsAttackedBy T b c square =
     (if BBPawnAttacks (other c) square AND (pawns b OR bishops b) AND occupiedCo b c > 0 then True
      else if KnightAttacksFrom b square AND knights b AND occupiedCo b c > 0 then True
      else if BishopAttacksFrom T b square AND (bishops b OR queens b) AND occupiedCo b c > 0 then True
      else if RookAttacksFrom T b square AND (rooks b OR queens b) AND occupiedCo b c > 0 then True
      else if KingAttacksFrom b square AND (kings b OR queens b) AND occupiedCo b c > 0 then True
      else False)"

definition AttackerMask :: "Tables \<Rightarrow> Bitboard \<Rightarrow> Colors \<Rightarrow> int \<Rightarrow> u64" where
  "AttackerMask T b c square =
     (let attackers = BBPawnAttacks (other c) square AND pawns b;
          attackers = attackers OR (KnightAttacksFrom b square AND knights b);
          attackers = attackers OR (BishopAttacksFrom T b square AND (bishops b OR queens b));
          attackers = attackers OR (RookAttacksFrom T b square AND (rooks b OR queens b));
          attackers = attackers OR (KingAttacksFrom b square AND kings b)
      in attackers AND occupiedCo b c)"

definition WasIntoCheck :: "Tables \<Rightarrow> Bitboard \<Rightarrow> bool" where
  "WasIntoCheck T b = IsAttackedBy T b (turn b) (kingSquares b (other (turn b)))"

definition PawnMovesFrom :: "Bitboard \<Rightarrow> int \<Rightarrow> u64" where
  "PawnMovesFrom b square =
     (let targets = BBPawnF1 (turn b) square AND NOT (occupied b);
          targets = (if targets > 0 then targets OR (BBPawnF2 (turn b) square AND NOT (occupied b))
                     else targets)
      in if epSquare b = 0
         then targets OR (BBPawnAttacks (turn b) square AND occupiedCo b (other (turn b)))
         else targets OR (BBPawnAttacks (turn b) square
                          AND (occupiedCo b (other (turn b)) OR BBSquares (epSquare b))))"

subsection \<open>The position hash\<close>

text \<open>
  \<^verbatim>\<open>ZobristHash(nil)\<close>, the only way the source calls it: the board term is the
  incrementally maintained hash and the array is \<^verbatim>\<open>PolyglotRandomArray\<close>.
\<close>

definition ZobristHash :: "Tables \<Rightarrow> Bitboard \<Rightarrow> u64" where
  "ZobristHash T b =
     (let array = PolyglotRandomArray T;
          z = incrementalZobristHash b;
          z = (if castlingRights b AND CastlingWhiteKingSide > 0 then z XOR array 768 else z);
          z = (if castlingRights b AND CastlingWhiteQueenSide > 0 then z XOR array (768 + 1) else z);
          z = (if castlingRights b AND CastlingBlackKingSide > 0 then z XOR array (768 + 2) else z);
          z = (if castlingRights b AND CastlingBlackQueenSide > 0 then z XOR array (768 + 3) else z);
          z = (if epSquare b > 0 then
                 (let epMask = (if turn b = White then shiftDown (BBSquares (epSquare b))
                                else shiftUp (BBSquares (epSquare b)));
                      epMask = shiftLeft epMask OR shiftRight epMask
                  in if epMask AND pawns b AND occupiedCo b (turn b) > 0
                     then z XOR array (772 + fileIndex (epSquare b)) else z)
               else z)
      in if turn b = White then z XOR array 780 else z)"

subsection \<open>Push and Pop\<close>

text \<open>The increment and decrement of a Go map entry.\<close>

definition bump :: "(u64 \<rightharpoonup> int) \<Rightarrow> u64 \<Rightarrow> int \<Rightarrow> (u64 \<rightharpoonup> int)" where
  "bump t h d = t(h \<mapsto> count_of t h + d)"

definition castling_update :: "Move \<Rightarrow> int \<Rightarrow> int" where
  "castling_update move cr =
     (if fromSquare move = E1 then cr AND NOT CastlingWhite
      else if fromSquare move = E8 then cr AND NOT CastlingBlack
      else if fromSquare move = A1 \<or> toSquare move = A1 then cr AND NOT CastlingWhiteQueenSide
      else if fromSquare move = A8 \<or> toSquare move = A8 then cr AND NOT CastlingBlackQueenSide
      else if fromSquare move = H1 \<or> toSquare move = H1 then cr AND NOT CastlingWhiteKingSide
      else if fromSquare move = H8 \<or> toSquare move = H8 then cr AND NOT CastlingBlackKingSide
      else cr)"

text \<open>The history frame that \<^verbatim>\<open>Push\<close> records before it changes anything.\<close>

definition push_frame :: "Bitboard \<Rightarrow> Move option \<Rightarrow> PieceTypes \<Rightarrow> Bitboard" where
  "push_frame b mv capturedPiece =
     b\<lparr>halfMoveClockStack := halfMoveClock b # halfMoveClockStack b,
       castlingRightStack := castlingRights b # castlingRightStack b,
       capturedPieceStack := capturedPiece # capturedPieceStack b,
       epSquareStack := epSquare b # epSquareStack b,
       moveStack := mv # moveStack b\<rparr>"

text \<open>
  The block \<^verbatim>\<open>if pieceType == Pawn { ... }\<close> of \<^verbatim>\<open>Push\<close>: the pawn passed en passant
  is removed, and a double push sets the en-passant square.
\<close>

definition pawn_special :: "Tables \<Rightarrow> Bitboard \<Rightarrow> Move \<Rightarrow> Bitboard" where
  "pawn_special T b move =
     (let diff = \<bar>toSquare move - fromSquare move\<bar>;
          b1 = (if (diff = 7 \<or> diff = 9) \<and> occupied b AND BBSquares (toSquare move) = 0
                then (if turn b = White then RemovePieceAt T b (toSquare move - 8)
                      else RemovePieceAt T b (toSquare move + 8))
                else b)
      in if diff = 16
         then (if turn b = White then b1\<lparr>epSquare := toSquare move - 8\<rparr>
               else b1\<lparr>epSquare := toSquare move + 8\<rparr>)
         else b1)"

text \<open>The block \<^verbatim>\<open>if pieceType == King { ... }\<close> of \<^verbatim>\<open>Push\<close>: the rook of a castling move.\<close>

definition castle_rook :: "Tables \<Rightarrow> Bitboard \<Rightarrow> Move \<Rightarrow> Bitboard" where
  "castle_rook T b move =
     (if fromSquare move = E1 \<and> toSquare move = G1
      then RemovePieceAt T (SetPieceAt T b F1 (NewPiece Rook White)) H1
      else if fromSquare move = E1 \<and> toSquare move = C1
      then RemovePieceAt T (SetPieceAt T b D1 (NewPiece Rook White)) A1
      else if fromSquare move = E8 \<and> toSquare move = G8
      then RemovePieceAt T (SetPieceAt T b F8 (NewPiece Rook Black)) H8
      else if fromSquare move = E8 \<and> toSquare move = C8
      then RemovePieceAt T (SetPieceAt T b D8 (NewPiece Rook Black)) A8
      else b)"

text \<open>
  \<^verbatim>\<open>Push\<close> of a real move, from the half-move clock update up to (not including) the
  transposition count.
\<close>

definition push_board :: "Tables \<Rightarrow> Bitboard \<Rightarrow> Move \<Rightarrow> PieceTypes \<Rightarrow> Bitboard" where
  "push_board T b move capturedPiece =
     (let pt0 = PieceTypeAt b (fromSquare move);
          b = b\<lparr>halfMoveClock := (if pt0 = Pawn \<or> capturedPiece \<noteq> NoneP then 0
                                   else halfMoveClock b + 1)\<rparr>;
          pt = (if promotion move \<noteq> NoneP then promotion move else pt0);
          b = RemovePieceAt T b (fromSquare move);
          b = b\<lparr>epSquare := 0\<rparr>;
          b = (if pt = Pawn then pawn_special T b move else b);
          b = b\<lparr>castlingRights := castling_update move (castlingRights b)\<rparr>;
          b = (if pt = King then castle_rook T b move else b);
          b = SetPieceAt T b (toSquare move) (NewPiece pt (turn b))
      in b\<lparr>turn := other (turn b)\<rparr>)"

definition Push :: "Tables \<Rightarrow> Bitboard \<Rightarrow> Move option \<Rightarrow> Bitboard" where
  "Push T b0 mv =
     (let b = (if turn b0 = Black then b0\<lparr>fullMoveNumber := fullMoveNumber b0 + 1\<rparr> else b0);
          capturedPiece = (case mv of None \<Rightarrow> NoneP | Some move \<Rightarrow> PieceTypeAt b (toSquare move));
          b = push_frame b mv capturedPiece
      in case mv of
           None \<Rightarrow> b\<lparr>turn := other (turn b), epSquare := 0, halfMoveClock := halfMoveClock b + 1\<rparr>
         | Some move \<Rightarrow>
            (let b = push_board T b move capturedPiece
             in b\<lparr>transpositions := bump (transpositions b) (ZobristHash T b) 1\<rparr>))"

text \<open>
  \<^verbatim>\<open>Pop\<close> returns the undone move with the new state; popping an empty stack (a
  \<^verbatim>\<open>Pop\<close> without a matching \<^verbatim>\<open>Push\<close>) is the fault \<^term>\<open>None\<close>.
\<close>

definition restore_target ::
  "Tables \<Rightarrow> Bitboard \<Rightarrow> Move \<Rightarrow> PieceTypes \<Rightarrow> PieceTypes \<Rightarrow> Colors \<Rightarrow> Bitboard" where
  "restore_target T b move piece capturedPiece capturedPieceColor =
     (if pt_int capturedPiece > pt_int NoneP
      then SetPieceAt T b (toSquare move) (NewPiece capturedPiece capturedPieceColor)
      else
        (let b1 = RemovePieceAt T b (toSquare move);
             diff = \<bar>fromSquare move - toSquare move\<bar>
         in if piece = Pawn \<and> (diff = 7 \<or> diff = 9)
            then (if turn b = White
                  then SetPieceAt T b1 (toSquare move + 8) (NewPiece Pawn White)
                  else SetPieceAt T b1 (toSquare move - 8) (NewPiece Pawn Black))
            else b1))"

definition uncastle_rook :: "Tables \<Rightarrow> Bitboard \<Rightarrow> Move \<Rightarrow> Bitboard" where
  "uncastle_rook T b move =
     (if fromSquare move = E1 \<and> toSquare move = G1
      then SetPieceAt T (RemovePieceAt T b F1) H1 (NewPiece Rook White)
      else if fromSquare move = E1 \<and> toSquare move = C1
      then SetPieceAt T (RemovePieceAt T b D1) A1 (NewPiece Rook White)
      else if fromSquare move = E8 \<and> toSquare move = G8
      then SetPieceAt T (RemovePieceAt T b F8) H8 (NewPiece Rook Black)
      else if fromSquare move = E8 \<and> toSquare move = C8
      then SetPieceAt T (RemovePieceAt T b D8) A8 (NewPiece Rook Black)
      else b)"

text \<open>\<^verbatim>\<open>Pop\<close> of a real move, after the history frame has been taken off.\<close>

definition pop_board :: "Tables \<Rightarrow> Bitboard \<Rightarrow> Move \<Rightarrow> PieceTypes \<Rightarrow> Bitboard" where
  "pop_board T b move capturedPiece =
     (let capturedPieceColor = turn b;
          piece = (if promotion move \<noteq> NoneP then Pawn else PieceTypeAt b (toSquare move));
          b = SetPieceAt T b (fromSquare move) (NewPiece piece (other (turn b)));
          b = restore_target T b move piece capturedPiece capturedPieceColor;
          b = (if piece = King then uncastle_rook T b move else b)
      in b\<lparr>turn := other (turn b)\<rparr>)"

definition Pop :: "Tables \<Rightarrow> Bitboard \<Rightarrow> (Bitboard \<times> Move option) option" where
  "Pop T b0 =
     (case (moveStack b0, halfMoveClockStack b0, castlingRightStack b0, epSquareStack b0,
            capturedPieceStack b0) of
        (mv # ms, hm # hs, cr # cs, ep # es, capturedPiece # ps) \<Rightarrow>
          (let b = b0\<lparr>moveStack := ms\<rparr>;
               b = b\<lparr>transpositions := bump (transpositions b) (ZobristHash T b) (- 1)\<rparr>;
               b = (if turn b = White then b\<lparr>fullMoveNumber := fullMoveNumber b - 1\<rparr> else b);
               b = b\<lparr>halfMoveClock := hm, halfMoveClockStack := hs,
                      castlingRights := cr, castlingRightStack := cs,
                      epSquare := ep, epSquareStack := es,
                      capturedPieceStack := ps\<rparr>
           in case mv of
                None \<Rightarrow> Some (b\<lparr>turn := other (turn b)\<rparr>, mv)
              | Some move \<Rightarrow> Some (pop_board T b move capturedPiece, mv))
      | _ \<Rightarrow> None)"

subsection \<open>The bit-scan loop\<close>

text \<open>
  Every enumeration of the source has the shape
  \<^verbatim>\<open>sq := bitScan(m, 0); for sq != -1 { ...; sq = bitScan(m, sq+1) }\<close>.
  \<open>scan_loop m sq\<close> is the list of squares this loop visits from the current value
  \<open>sq\<close> on, \<^term>\<open>None\<close> if a \<^verbatim>\<open>bitScan\<close> call faults.  Its termination rests on what
  \<^verbatim>\<open>bitScan\<close> returns, so the facts about \<^verbatim>\<open>bitScan\<close> come first.
\<close>

lemma fmt_b_length_le: "n < 2 ^ k \<Longrightarrow> 0 < k \<Longrightarrow> length (fmt_b n) \<le> k"
proof (induction n arbitrary: k rule: fmt_b.induct)
  case (1 n)
  show ?case
  proof (cases "n < 2")
    case True
    then show ?thesis using "1.prems" by (subst fmt_b.simps) simp
  next
    case False
    from "1.prems" obtain j where k: "k = Suc j" by (cases k) auto
    have "j \<noteq> 0" using False "1.prems" k by (cases j) auto
    moreover have "n div 2 < 2 ^ j" using "1.prems" k by auto
    ultimately have "length (fmt_b (n div 2)) \<le> j" using "1.IH" False by simp
    then show ?thesis using False k by (subst fmt_b.simps) simp
  qed
qed

lemma fmt_b_length_u64: "length (fmt_b (unat (b::u64))) \<le> 64"
proof -
  have "unat b < 2 ^ 64" using unsigned_less [of b] by simp
  then show ?thesis by (rule fmt_b_length_le) simp
qed

lemma bit_below_fmt_length: "bit (b::u64) i \<Longrightarrow> i < length (fmt_b (unat b))"
proof (rule ccontr)
  assume b: "bit b i" and "\<not> i < length (fmt_b (unat b))"
  then have "length (fmt_b (unat b)) \<le> i" by simp
  from fmt_b_high [OF this] b show False by (simp add: bit_unsigned_iff)
qed

lemma bitScan_result:
  assumes "bitScan b n = Some r"
  shows "0 \<le> n \<and> n \<le> 64 \<and>
         ((r = - 1 \<and> (\<forall>i. nat n \<le> i \<longrightarrow> \<not> bit b i)) \<or>
          (n \<le> r \<and> r < 64 \<and> bit b (nat r) \<and> (\<forall>i. nat n \<le> i \<and> i < nat r \<longrightarrow> \<not> bit b i)))"
proof -
  from assms have nf: "\<not> (n < 0 \<or> int (length (fmt_b (unat b))) < n)"
    using bitScan_fault_iff [of b n] by auto
  then have n0: "0 \<le> n" and nl: "n \<le> int (length (fmt_b (unat b)))" by auto
  have n64: "n \<le> 64" using nl fmt_b_length_u64 [of b] by linarith
  show ?thesis
  proof (cases "\<exists>i. nat n \<le> i \<and> bit b i")
    case False
    with bitScan_in_range [OF n0 nl] assms have "r = - 1" by simp
    with False n0 n64 show ?thesis by blast
  next
    case True
    define l where "l = (LEAST i. nat n \<le> i \<and> bit b i)"
    from True have lp: "nat n \<le> l \<and> bit b l" unfolding l_def by (rule LeastI_ex)
    have lmin: "\<And>i. nat n \<le> i \<and> bit b i \<Longrightarrow> l \<le> i" unfolding l_def by (rule Least_le)
    from bitScan_in_range [OF n0 nl] assms True have r: "r = int l" by (simp add: l_def)
    have "l < 64" using lp bit_imp_le_length [of b l] by simp
    moreover have "\<forall>i. nat n \<le> i \<and> i < l \<longrightarrow> \<not> bit b i" using lmin by fastforce
    ultimately show ?thesis using n0 n64 lp r by auto
  qed
qed

function scan_loop :: "u64 \<Rightarrow> int \<Rightarrow> int list option" where
  "scan_loop m sq =
     (if sq = - 1 then Some []
      else (case bitScan m (sq + 1) of
              None \<Rightarrow> None
            | Some nx \<Rightarrow> map_option ((#) sq) (scan_loop m nx)))"
  by pat_completeness auto
termination
proof (relation "measure (\<lambda>(m, sq). if sq = - 1 then 0 else nat (65 - sq))")
  show "wf (measure (\<lambda>(m::u64, sq::int). if sq = - 1 then 0 else nat (65 - sq)))" by simp
next
  fix m :: u64 and sq nx :: int
  assume ne: "sq \<noteq> - 1" and bs: "bitScan m (sq + 1) = Some nx"
  from bitScan_result [OF bs] have "0 \<le> sq + 1" "sq + 1 \<le> 64" "nx = - 1 \<or> sq + 1 \<le> nx" by auto
  with ne show "((m, nx), (m, sq)) \<in> measure (\<lambda>(m, sq). if sq = - 1 then 0 else nat (65 - sq))"
    by auto
qed

declare scan_loop.simps [simp del]

definition scan :: "u64 \<Rightarrow> int list option" where
  "scan m = (case bitScan m 0 of None \<Rightarrow> None | Some sq \<Rightarrow> scan_loop m sq)"

text \<open>The set bits of a mask in ascending order: what the loop is meant to visit.\<close>

definition bits_from :: "u64 \<Rightarrow> nat \<Rightarrow> int list" where
  "bits_from m k = map int (filter (bit m) [k..<64])"

definition bits :: "u64 \<Rightarrow> int list" where
  "bits m = bits_from m 0"

lemma bits_from_none: "(\<forall>i. k \<le> i \<longrightarrow> \<not> bit m i) \<Longrightarrow> bits_from m k = []"
  by (auto simp: bits_from_def filter_empty_conv)

lemma bits_from_first:
  assumes "k \<le> r" "r < 64" "bit m r" "\<forall>i. k \<le> i \<and> i < r \<longrightarrow> \<not> bit m i"
  shows "bits_from m k = int r # bits_from m (Suc r)"
proof -
  have "[k..<64] = [k..<r] @ r # [Suc r..<64]"
    using assms(1,2) by (metis le_add_diff_inverse less_imp_le_nat upt_add_eq_append upt_conv_Cons)
  moreover have "filter (bit m) [k..<r] = []" using assms(4) by (auto simp: filter_empty_conv)
  ultimately show ?thesis using assms(3) by (simp add: bits_from_def)
qed

lemma scan_loop_bits:
  "k \<le> 64 \<Longrightarrow> bitScan m (int k) = Some r \<Longrightarrow> scan_loop m r = Some (bits_from m k)"
proof (induction "64 - k" arbitrary: k r rule: less_induct)
  case less
  from bitScan_result [OF less.prems(2)]
  consider (none) "r = - 1" "\<forall>i. k \<le> i \<longrightarrow> \<not> bit m i"
    | (some) "int k \<le> r" "r < 64" "bit m (nat r)" "\<forall>i. k \<le> i \<and> i < nat r \<longrightarrow> \<not> bit m i"
    by auto
  then show ?case
  proof cases
    case none
    then show ?thesis by (subst scan_loop.simps) (simp add: bits_from_none)
  next
    case some
    define j where "j = nat r"
    have rj: "r = int j" and kj: "k \<le> j" and j64: "j < 64" using some(1,2) by (auto simp: j_def)
    have first: "bits_from m k = int j # bits_from m (Suc j)"
      using kj j64 some(3,4) unfolding j_def [symmetric] by (rule bits_from_first)
    have inr: "int (Suc j) \<le> int (length (fmt_b (unat m)))"
    proof -
      have "j < length (fmt_b (unat m))" using bit_below_fmt_length [of m j] some(3) by (simp add: j_def)
      then show ?thesis by linarith
    qed
    have "bitScan m (int (Suc j)) \<noteq> None" using inr bitScan_fault_iff [of m "int (Suc j)"] by simp
    then obtain nx where nx: "bitScan m (int (Suc j)) = Some nx" by auto
    have "scan_loop m nx = Some (bits_from m (Suc j))"
      using less.hyps [of "Suc j" nx] j64 kj less.prems(1) nx by simp
    moreover have "bitScan m (r + 1) = Some nx" using nx rj by (simp add: add.commute)
    moreover have "r \<noteq> - 1" using rj by simp
    ultimately show ?thesis
      by (subst scan_loop.simps) (simp add: first rj)
  qed
qed

lemma scan_bits: "scan m = Some (bits m)"
proof -
  have "bitScan m 0 \<noteq> None" using bitScan_fault_iff [of m 0] by simp
  then obtain r where r: "bitScan m 0 = Some r" by auto
  with scan_loop_bits [of 0 m r] show ?thesis by (simp add: scan_def bits_def)
qed

lemma bits_set: "set (bits m) = int ` {i. bit m i}"
proof -
  have "{i. i < 64 \<and> bit m i} = {i. bit m i}" using bit_imp_le_length [of m] by auto
  then show ?thesis by (auto simp: bits_def bits_from_def)
qed

lemma length_bits: "int (length (bits m)) = popCount m"
proof -
  have d: "distinct (filter (bit m) [0..<64])" by simp
  have "set (filter (bit m) [0..<64]) = {i. bit m i}" using bit_imp_le_length [of m] by auto
  with distinct_card [OF d] have "length (filter (bit m) [0..<64]) = card {i. bit m i}" by simp
  then show ?thesis by (simp add: bits_def bits_from_def popCount_card)
qed

subsection \<open>Pseudo-legal move generation and the move count\<close>

text \<open>
  \<open>oapp\<close> continues \<^verbatim>\<open>result = append(result, ...)\<close> after an earlier loop; a fault in
  either part is a fault of the whole.
\<close>

definition oapp :: "'a list option \<Rightarrow> 'a list option \<Rightarrow> 'a list option" where
  "oapp x y = (case x of None \<Rightarrow> None | Some a \<Rightarrow> map_option ((@) a) y)"

text \<open>A loop over the squares of one mask, appending the moves \<open>body sq\<close> for each.\<close>

definition target_loop :: "u64 \<Rightarrow> (int \<Rightarrow> Move list) \<Rightarrow> Move list option" where
  "target_loop moves body = map_option (\<lambda>sqs. concat (map body sqs)) (scan moves)"

text \<open>
  The four-way promotion branch of the pawn loops: one move unless the destination is
  on the last rank, else the promotions to queen, knight, rook and bishop, in this order.
\<close>

definition promo_moves :: "int \<Rightarrow> int \<Rightarrow> int \<Rightarrow> Move list" where
  "promo_moves lastRank fromSq toSq =
     (if rankIndex toSq \<noteq> lastRank then [NewMove fromSq toSq NoneP]
      else [NewMove fromSq toSq Queen, NewMove fromSq toSq Knight,
            NewMove fromSq toSq Rook, NewMove fromSq toSq Bishop])"

text \<open>
  The nested loops of the piece sections: for every mover, for every destination of its
  attack mask that is not occupied by the side to move.
\<close>

fun dest_loops :: "(int \<Rightarrow> u64) \<Rightarrow> int list \<Rightarrow> Move list option" where
  "dest_loops dests [] = Some []"
| "dest_loops dests (f # fs) =
     oapp (target_loop (dests f) (\<lambda>t. [NewMove f t NoneP])) (dest_loops dests fs)"

definition mover_loop :: "u64 \<Rightarrow> (int \<Rightarrow> u64) \<Rightarrow> Move list option" where
  "mover_loop movers dests = (case scan movers of None \<Rightarrow> None | Some fs \<Rightarrow> dest_loops dests fs)"

definition castling_moves :: "Tables \<Rightarrow> Bitboard \<Rightarrow> Move list" where
  "castling_moves T b =
     (if turn b = White then
        (if castlingRights b AND CastlingWhiteKingSide > 0
             \<and> (BBSquares F1 OR BBSquares G1) AND occupied b = 0
             \<and> \<not> IsAttackedBy T b Black E1 \<and> \<not> IsAttackedBy T b Black F1
             \<and> \<not> IsAttackedBy T b Black G1
         then [NewMove E1 G1 NoneP] else [])
        @ (if castlingRights b AND CastlingWhiteQueenSide > 0
             \<and> (BBSquares B1 OR BBSquares C1 OR BBSquares D1) AND occupied b = 0
             \<and> \<not> IsAttackedBy T b Black C1 \<and> \<not> IsAttackedBy T b Black D1
             \<and> \<not> IsAttackedBy T b Black E1
           then [NewMove E1 C1 NoneP] else [])
      else
        (if castlingRights b AND CastlingBlackKingSide > 0
             \<and> (BBSquares F8 OR BBSquares G8) AND occupied b = 0
             \<and> \<not> IsAttackedBy T b White E8 \<and> \<not> IsAttackedBy T b White F8
             \<and> \<not> IsAttackedBy T b White G8
         then [NewMove E8 G8 NoneP] else [])
        @ (if castlingRights b AND CastlingBlackQueenSide > 0
             \<and> (BBSquares B8 OR BBSquares C8 OR BBSquares D8) AND occupied b = 0
             \<and> \<not> IsAttackedBy T b White C8 \<and> \<not> IsAttackedBy T b White D8
             \<and> \<not> IsAttackedBy T b White E8
           then [NewMove E8 C8 NoneP] else []))"

definition pawn_moves :: "Bitboard \<Rightarrow> Move list option" where
  "pawn_moves b =
     (if turn b = White then
        (let movers = pawns b AND occupiedCo b White;
             ep = (if epSquare b > 0
                   then target_loop (BBPawnAttacks Black (epSquare b) AND movers)
                          (\<lambda>f. [NewMove f (epSquare b) NoneP])
                   else Some []);
             capr = target_loop (shiftUpRight movers AND occupiedCo b Black)
                      (\<lambda>t. promo_moves 7 (t - 9) t);
             capl = target_loop (shiftUpLeft movers AND occupiedCo b Black)
                      (\<lambda>t. promo_moves 7 (t - 7) t);
             moves = shiftUp movers AND NOT (occupied b);
             one = target_loop moves (\<lambda>t. promo_moves 7 (t - 8) t);
             two = target_loop (shiftUp moves AND BBRank4 AND NOT (occupied b))
                     (\<lambda>t. [NewMove (t - 16) t NoneP])
         in oapp ep (oapp capr (oapp capl (oapp one two))))
      else
        (let movers = pawns b AND occupiedCo b Black;
             ep = (if epSquare b > 0
                   then target_loop (BBPawnAttacks White (epSquare b) AND movers)
                          (\<lambda>f. [NewMove f (epSquare b) NoneP])
                   else Some []);
             capl = target_loop (shiftDownLeft movers AND occupiedCo b White)
                      (\<lambda>t. promo_moves 0 (t + 9) t);
             capr = target_loop (shiftDownRight movers AND occupiedCo b White)
                      (\<lambda>t. promo_moves 0 (t + 7) t);
             moves = shiftDown movers AND NOT (occupied b);
             one = target_loop moves (\<lambda>t. promo_moves 0 (t + 8) t);
             two = target_loop (shiftDown moves AND BBRank5 AND NOT (occupied b))
                     (\<lambda>t. [NewMove (t + 16) t NoneP])
         in oapp ep (oapp capl (oapp capr (oapp one two)))))"

definition GeneratePseudoLegalMoves ::
  "Tables \<Rightarrow> Bitboard \<Rightarrow> bool \<Rightarrow> bool \<Rightarrow> bool \<Rightarrow> bool \<Rightarrow> bool \<Rightarrow> bool \<Rightarrow> bool \<Rightarrow> Move list option" where
  "GeneratePseudoLegalMoves T b castling pawnsF knightsF bishopsF rooksF queensF king =
     (let own = occupiedCo b (turn b) in
      oapp (Some (if castling then castling_moves T b else []))
     (oapp (if pawnsF then pawn_moves b else Some [])
     (oapp (if knightsF
            then mover_loop (knights b AND own) (\<lambda>f. KnightAttacksFrom b f AND NOT own)
            else Some [])
     (oapp (if bishopsF
            then mover_loop (bishops b AND own) (\<lambda>f. BishopAttacksFrom T b f AND NOT own)
            else Some [])
     (oapp (if rooksF
            then mover_loop (rooks b AND own) (\<lambda>f. RookAttacksFrom T b f AND NOT own)
            else Some [])
     (oapp (if queensF
            then mover_loop (queens b AND own) (\<lambda>f. QueenAttacksFrom T b f AND NOT own)
            else Some [])
           (if king
            then target_loop (KingAttacksFrom b (kingSquares b (turn b)) AND NOT own)
                   (\<lambda>t. [NewMove (kingSquares b (turn b)) t NoneP])
            else Some [])))))))"

text \<open>
  \<^verbatim>\<open>PseudoLegalMoveCount\<close>.  The pawn section is written out per colour as in the source;
  the piece sections add the population count of each mover's destinations.
\<close>

definition count_loop :: "u64 \<Rightarrow> (int \<Rightarrow> u64) \<Rightarrow> int option" where
  "count_loop movers dests =
     map_option (\<lambda>fs. sum_list (map (\<lambda>f. popCount (dests f)) fs)) (scan movers)"

definition oadd :: "int option \<Rightarrow> int option \<Rightarrow> int option" where
  "oadd x y = (case x of None \<Rightarrow> None | Some a \<Rightarrow> map_option ((+) a) y)"

definition pawn_count :: "Bitboard \<Rightarrow> int" where
  "pawn_count b =
     (if turn b = White then
        (let movers = pawns b AND occupiedCo b White;
             count = (if epSquare b > 0
                      then popCount (BBPawnAttacks Black (epSquare b) AND movers) else 0);
             moves = shiftUpRight movers AND occupiedCo b Black;
             count = count + popCount (moves AND BBRank8) * 3;
             count = count + popCount moves;
             moves = shiftUpLeft movers AND occupiedCo b Black;
             count = count + popCount (moves AND BBRank8) * 3;
             count = count + popCount moves;
             moves = shiftUp movers AND NOT (occupied b);
             movers = moves;
             count = count + popCount (moves AND BBRank8) * 3;
             count = count + popCount moves;
             moves = shiftUp movers AND BBRank4 AND NOT (occupied b)
         in count + popCount moves)
      else
        (let movers = pawns b AND occupiedCo b Black;
             count = (if epSquare b > 0
                      then popCount (BBPawnAttacks White (epSquare b) AND movers) else 0);
             moves = shiftDownLeft movers AND occupiedCo b White;
             count = count + popCount (moves AND BBRank1) * 3;
             count = count + popCount moves;
             moves = shiftDownRight movers AND occupiedCo b White;
             count = count + popCount (moves AND BBRank1) * 3;
             count = count + popCount moves;
             moves = shiftDown movers AND NOT (occupied b);
             movers = moves;
             count = count + popCount (moves AND BBRank1) * 3;
             moves = shiftDown movers AND BBRank5 AND NOT (occupied b)
         in count + popCount moves))"

definition castling_count :: "Tables \<Rightarrow> Bitboard \<Rightarrow> int" where
  "castling_count T b =
     (if turn b = White then
        (let count = (if castlingRights b AND CastlingWhiteKingSide > 0
                          \<and> (BBSquares F1 OR BBSquares G1) AND occupied b = 0
                          \<and> \<not> IsAttackedBy T b Black E1 \<and> \<not> IsAttackedBy T b Black F1
                          \<and> \<not> IsAttackedBy T b Black G1
                      then 1 else 0)
         in if castlingRights b AND CastlingWhiteQueenSide > 0
                \<and> (BBSquares B1 OR BBSquares C1 OR BBSquares D1) AND occupied b = 0
                \<and> \<not> IsAttackedBy T b Black C1 \<and> \<not> IsAttackedBy T b Black D1
                \<and> \<not> IsAttackedBy T b Black E1
            then count + 1 else count)
      else
        (let count = (if castlingRights b AND CastlingBlackKingSide > 0
                          \<and> (BBSquares F8 OR BBSquares G8) AND occupied b = 0
                          \<and> \<not> IsAttackedBy T b White E8 \<and> \<not> IsAttackedBy T b White F8
                          \<and> \<not> IsAttackedBy T b White G8
                      then 1 else 0)
         in if castlingRights b AND CastlingBlackQueenSide > 0
                \<and> (BBSquares B8 OR BBSquares C8 OR BBSquares D8) AND occupied b = 0
                \<and> \<not> IsAttackedBy T b White C8 \<and> \<not> IsAttackedBy T b White D8
                \<and> \<not> IsAttackedBy T b White E8
            then count + 1 else count))"

definition PseudoLegalMoveCount :: "Tables \<Rightarrow> Bitboard \<Rightarrow> int option" where
  "PseudoLegalMoveCount T b =
     (let own = occupiedCo b (turn b) in
      oadd (Some (castling_count T b + pawn_count b))
     (oadd (count_loop (knights b AND own) (\<lambda>f. KnightAttacksFrom b f AND NOT own))
     (oadd (count_loop (bishops b AND own) (\<lambda>f. BishopAttacksFrom T b f AND NOT own))
     (oadd (count_loop (rooks b AND own) (\<lambda>f. RookAttacksFrom T b f AND NOT own))
     (oadd (count_loop (queens b AND own) (\<lambda>f. QueenAttacksFrom T b f AND NOT own))
           (Some (popCount (KingAttacksFrom b (kingSquares b (turn b)) AND NOT own))))))))"

lemma target_loop_eq: "target_loop m body = Some (concat (map body (bits m)))"
  by (simp add: target_loop_def scan_bits)

lemma dest_loops_eq:
  "dest_loops d fs = Some (concat (map (\<lambda>f. map (\<lambda>t. NewMove f t NoneP) (bits (d f))) fs))"
proof (induction fs)
  case Nil then show ?case by simp
next
  case (Cons f fs)
  have "concat (map (\<lambda>t. [NewMove f t NoneP]) (bits (d f))) = map (\<lambda>t. NewMove f t NoneP) (bits (d f))"
    by (induction "bits (d f)") auto
  with Cons show ?case by (simp add: oapp_def target_loop_eq)
qed

lemma mover_loop_eq:
  "mover_loop movers d =
     Some (concat (map (\<lambda>f. map (\<lambda>t. NewMove f t NoneP) (bits (d f))) (bits movers)))"
  by (simp add: mover_loop_def scan_bits dest_loops_eq)

lemma count_loop_eq:
  "count_loop movers d = Some (sum_list (map (\<lambda>f. popCount (d f)) (bits movers)))"
  by (simp add: count_loop_def scan_bits)

lemma length_dest_lists:
  "int (length (concat (map (\<lambda>f. map (g f) (bits (d f))) fs))) = sum_list (map (\<lambda>f. popCount (d f)) fs)"
  by (induction fs) (simp_all add: length_bits)

lemma length_single_moves: "int (length (concat (map (\<lambda>t. [h t]) xs))) = int (length xs)"
  by (induction xs) simp_all

lemma length_promo_moves:
  "int (length (concat (map (\<lambda>t. promo_moves L (g t) t) xs)))
     = int (length xs) + 3 * int (length (filter (\<lambda>t. rankIndex t = L) xs))"
  by (induction xs) (simp_all add: promo_moves_def)

lemma bits_and:
  "bits (m AND r) = filter (\<lambda>t. bit r (nat t)) (bits m)"
proof -
  have "\<And>xs. filter (bit (m AND r)) xs = filter (bit r) (filter (bit m) xs)"
  proof -
    fix xs :: "nat list"
    show "filter (bit (m AND r)) xs = filter (bit r) (filter (bit m) xs)"
      by (induction xs) (simp_all add: bit_and_iff)
  qed
  then show ?thesis by (simp add: bits_def bits_from_def filter_map comp_def)
qed

lemma bits_range: "t \<in> set (bits m) \<Longrightarrow> 0 \<le> t \<and> t < 64"
  by (auto simp: bits_def bits_from_def)

lemma bit_BBRank1: "bit BBRank1 i \<longleftrightarrow> i < 8"
proof -
  have e: "BBRank1 = mask 8" by (simp add: BBRank1_def mask_eq_exp_minus_1)
  show ?thesis unfolding e by (auto simp: bit_mask_iff)
qed

lemma bit_BBRank8: "bit BBRank8 i \<longleftrightarrow> 56 \<le> i \<and> i < 64"
proof -
  have e: "BBRank8 = push_bit 56 (mask 8)" by (simp add: BBRank8_def mask_eq_exp_minus_1)
  show ?thesis unfolding e by (auto simp: bit_push_bit_iff bit_mask_iff)
qed

lemma rank1_filter: "filter (\<lambda>t. rankIndex t = 0) (bits m) = bits (m AND BBRank1)"
proof -
  have "\<And>t. t \<in> set (bits m) \<Longrightarrow> (rankIndex t = 0) = bit BBRank1 (nat t)"
    using bits_range [of _ m] by (auto simp: rankIndex_def bit_BBRank1)
  then show ?thesis by (simp add: bits_and cong: filter_cong)
qed

lemma rank8_filter: "filter (\<lambda>t. rankIndex t = 7) (bits m) = bits (m AND BBRank8)"
proof -
  have "\<And>t. t \<in> set (bits m) \<Longrightarrow> (rankIndex t = 7) = bit BBRank8 (nat t)"
    using bits_range [of _ m] by (auto simp: rankIndex_def bit_BBRank8)
  then show ?thesis by (simp add: bits_and cong: filter_cong)
qed

lemma length_promo_rank1:
  "int (length (concat (map (\<lambda>t. promo_moves 0 (g t) t) (bits m))))
     = popCount m + popCount (m AND BBRank1) * 3"
  by (simp add: length_promo_moves rank1_filter length_bits)

lemma length_promo_rank8:
  "int (length (concat (map (\<lambda>t. promo_moves 7 (g t) t) (bits m))))
     = popCount m + popCount (m AND BBRank8) * 3"
  by (simp add: length_promo_moves rank8_filter length_bits)

lemma length_singles_bits: "int (length (concat (map (\<lambda>t. [h t]) (bits m)))) = popCount m"
  by (simp add: length_single_moves length_bits)

lemma castling_count_length: "castling_count T b = int (length (castling_moves T b))"
  by (simp add: castling_count_def castling_moves_def Let_def)

lemma pawn_moves_white:
  "turn b = White \<Longrightarrow> \<exists>ms. pawn_moves b = Some ms \<and> int (length ms) = pawn_count b"
  by (simp add: pawn_moves_def pawn_count_def Let_def oapp_def target_loop_eq
      length_promo_rank8 length_singles_bits length_bits)

lemma pawn_moves_black:
  "turn b = Black \<Longrightarrow> \<exists>ms. pawn_moves b = Some ms \<and>
     int (length ms) = pawn_count b + popCount (shiftDown (pawns b AND occupiedCo b Black) AND NOT (occupied b))"
  by (simp add: pawn_moves_def pawn_count_def Let_def oapp_def target_loop_eq
      length_promo_rank1 length_singles_bits length_bits)

lemma generate_vs_count:
  assumes "pawn_moves b = Some pm"
  shows "\<exists>ms n. GeneratePseudoLegalMoves T b True True True True True True True = Some ms
           \<and> PseudoLegalMoveCount T b = Some n
           \<and> int (length ms) - n = int (length pm) - pawn_count b"
  using assms
  by (simp add: GeneratePseudoLegalMoves_def PseudoLegalMoveCount_def Let_def oapp_def oadd_def
      mover_loop_eq count_loop_eq target_loop_eq length_dest_lists length_singles_bits
      castling_count_length length_bits)

lemma count_matches_for_white:
  "turn b = White \<Longrightarrow> \<exists>ms. GeneratePseudoLegalMoves T b True True True True True True True = Some ms
     \<and> PseudoLegalMoveCount T b = Some (int (length ms))"
proof -
  assume w: "turn b = White"
  from pawn_moves_white [OF w] obtain pm where pm: "pawn_moves b = Some pm"
    "int (length pm) = pawn_count b" by blast
  from generate_vs_count [OF pm(1), of T] pm(2) show ?thesis by auto
qed

lemma count_short_for_black:
  "turn b = Black \<Longrightarrow> \<exists>ms n. GeneratePseudoLegalMoves T b True True True True True True True = Some ms
     \<and> PseudoLegalMoveCount T b = Some n
     \<and> int (length ms) = n + popCount (shiftDown (pawns b AND occupiedCo b Black) AND NOT (occupied b))"
proof -
  assume bl: "turn b = Black"
  from pawn_moves_black [OF bl] obtain pm where pm: "pawn_moves b = Some pm"
    "int (length pm) = pawn_count b + popCount (shiftDown (pawns b AND occupiedCo b Black) AND NOT (occupied b))"
    by blast
  from generate_vs_count [OF pm(1), of T] pm(2) show ?thesis by auto
qed

subsection \<open>Fields that the single-square primitives leave alone\<close>

lemma RemovePieceAt_scalars [simp]:
  "castlingRights (RemovePieceAt T b s) = castlingRights b"
  "turn (RemovePieceAt T b s) = turn b"
  "epSquare (RemovePieceAt T b s) = epSquare b"
  "halfMoveClock (RemovePieceAt T b s) = halfMoveClock b"
  "fullMoveNumber (RemovePieceAt T b s) = fullMoveNumber b"
  "transpositions (RemovePieceAt T b s) = transpositions b"
  "moveStack (RemovePieceAt T b s) = moveStack b"
  "halfMoveClockStack (RemovePieceAt T b s) = halfMoveClockStack b"
  "castlingRightStack (RemovePieceAt T b s) = castlingRightStack b"
  "epSquareStack (RemovePieceAt T b s) = epSquareStack b"
  "capturedPieceStack (RemovePieceAt T b s) = capturedPieceStack b"
  by (simp_all add: RemovePieceAt_def Let_def)

lemma SetPieceAt_scalars [simp]:
  "castlingRights (SetPieceAt T b s p) = castlingRights b"
  "turn (SetPieceAt T b s p) = turn b"
  "epSquare (SetPieceAt T b s p) = epSquare b"
  "halfMoveClock (SetPieceAt T b s p) = halfMoveClock b"
  "fullMoveNumber (SetPieceAt T b s p) = fullMoveNumber b"
  "transpositions (SetPieceAt T b s p) = transpositions b"
  "moveStack (SetPieceAt T b s p) = moveStack b"
  "halfMoveClockStack (SetPieceAt T b s p) = halfMoveClockStack b"
  "castlingRightStack (SetPieceAt T b s p) = castlingRightStack b"
  "epSquareStack (SetPieceAt T b s p) = epSquareStack b"
  "capturedPieceStack (SetPieceAt T b s p) = capturedPieceStack b"
  by (simp_all add: SetPieceAt_def Let_def)

lemma pawn_special_scalars [simp]:
  "castlingRights (pawn_special T b m) = castlingRights b"
  "turn (pawn_special T b m) = turn b"
  "transpositions (pawn_special T b m) = transpositions b"
  "moveStack (pawn_special T b m) = moveStack b"
  "halfMoveClockStack (pawn_special T b m) = halfMoveClockStack b"
  "castlingRightStack (pawn_special T b m) = castlingRightStack b"
  "epSquareStack (pawn_special T b m) = epSquareStack b"
  "capturedPieceStack (pawn_special T b m) = capturedPieceStack b"
  "halfMoveClock (pawn_special T b m) = halfMoveClock b"
  "fullMoveNumber (pawn_special T b m) = fullMoveNumber b"
  by (simp_all add: pawn_special_def Let_def)

lemma castle_rook_scalars [simp]:
  "castlingRights (castle_rook T b m) = castlingRights b"
  "turn (castle_rook T b m) = turn b"
  "epSquare (castle_rook T b m) = epSquare b"
  "transpositions (castle_rook T b m) = transpositions b"
  "moveStack (castle_rook T b m) = moveStack b"
  "halfMoveClockStack (castle_rook T b m) = halfMoveClockStack b"
  "castlingRightStack (castle_rook T b m) = castlingRightStack b"
  "epSquareStack (castle_rook T b m) = epSquareStack b"
  "capturedPieceStack (castle_rook T b m) = capturedPieceStack b"
  "halfMoveClock (castle_rook T b m) = halfMoveClock b"
  "fullMoveNumber (castle_rook T b m) = fullMoveNumber b"
  by (simp_all add: castle_rook_def)

lemma push_board_scalars [simp]:
  "castlingRights (push_board T b m c) = castling_update m (castlingRights b)"
  "turn (push_board T b m c) = other (turn b)"
  "transpositions (push_board T b m c) = transpositions b"
  "moveStack (push_board T b m c) = moveStack b"
  "halfMoveClockStack (push_board T b m c) = halfMoveClockStack b"
  "castlingRightStack (push_board T b m c) = castlingRightStack b"
  "epSquareStack (push_board T b m c) = epSquareStack b"
  "capturedPieceStack (push_board T b m c) = capturedPieceStack b"
  "fullMoveNumber (push_board T b m c) = fullMoveNumber b"
  by (simp_all add: push_board_def Let_def)

lemma castlingRights_Push:
  "castlingRights (Push T b (Some m)) = castling_update m (castlingRights b)"
  by (simp add: Push_def Let_def push_frame_def)

lemma ZobristHash_ignores [simp]:
  "ZobristHash T (b\<lparr>transpositions := t\<rparr>) = ZobristHash T b"
  "ZobristHash T (b\<lparr>moveStack := ms\<rparr>) = ZobristHash T b"
  by (simp_all add: ZobristHash_def Let_def)

lemma count_of_bump: "count_of (bump t h d) h' = (if h' = h then count_of t h + d else count_of t h')"
  by (simp add: bump_def count_of_def)

lemma Push_move_eq:
  "Push T b (Some m) =
     (let b1 = push_board T
                 (push_frame (if turn b = Black then b\<lparr>fullMoveNumber := fullMoveNumber b + 1\<rparr> else b)
                    (Some m) (PieceTypeAt b (toSquare m)))
                 m (PieceTypeAt b (toSquare m))
      in b1\<lparr>transpositions := bump (transpositions b) (ZobristHash T b1) 1\<rparr>)"
  by (simp add: Push_def Let_def push_frame_def PieceTypeAt_def)

lemma Push_move_increments:
  "count_of (transpositions (Push T b (Some m))) (ZobristHash T (Push T b (Some m)))
     = count_of (transpositions b) (ZobristHash T (Push T b (Some m))) + 1"
  by (simp add: Push_move_eq Let_def count_of_bump)

lemma Push_null_fields:
  "transpositions (Push T b None) = transpositions b"
  "moveStack (Push T b None) = None # moveStack b"
  "halfMoveClockStack (Push T b None) = halfMoveClock b # halfMoveClockStack b"
  "castlingRightStack (Push T b None) = castlingRights b # castlingRightStack b"
  "epSquareStack (Push T b None) = epSquare b # epSquareStack b"
  "capturedPieceStack (Push T b None) = NoneP # capturedPieceStack b"
  by (simp_all add: Push_def Let_def push_frame_def)

lemma Pop_null_frame:
  assumes "moveStack p = None # ms" "halfMoveClockStack p = hm # hs"
    "castlingRightStack p = cr # cs" "epSquareStack p = ep # es" "capturedPieceStack p = c # ps"
  shows "\<exists>b'. Pop T p = Some (b', None)
           \<and> transpositions b' = bump (transpositions p) (ZobristHash T p) (- 1)"
  using assms by (simp add: Pop_def Let_def)

lemma Pop_null:
  "\<exists>b'. Pop T (Push T b None) = Some (b', None)
        \<and> transpositions b' = bump (transpositions b) (ZobristHash T (Push T b None)) (- 1)"
  using Pop_null_frame [of "Push T b None", OF Push_null_fields(2-6)]
  by (simp add: Push_null_fields(1))

section \<open>Claims about bit.go\<close>


section \<open>Claims about move.go\<close>

lemma square_loop_gen:
  "s \<notin> set xs \<Longrightarrow> foldl (\<lambda>sq i. if xs ! i = s then int i else sq) a [0..<length xs] = a"
proof -
  assume n: "s \<notin> set xs"
  have "\<And>k. k \<le> length xs \<Longrightarrow> foldl (\<lambda>sq i. if xs ! i = s then int i else sq) a [0..<k] = a"
  proof -
    fix k show "k \<le> length xs \<Longrightarrow> foldl (\<lambda>sq i. if xs ! i = s then int i else sq) a [0..<k] = a"
    proof (induction k)
      case 0 then show ?case by simp
    next
      case (Suc k)
      then have "xs ! k \<noteq> s" using n by (metis Suc_le_lessD nth_mem)
      with Suc show ?case by simp
    qed
  qed
  then show ?thesis by simp
qed

lemma square_loop_unknown: "s \<notin> set SquareNames \<Longrightarrow> square_loop s = 0"
  unfolding square_loop_def by (rule square_loop_gen)

lemma symbol_loop_unknown: "s \<notin> set ys \<Longrightarrow> symbol_loop ys i s = NoneP"
  by (induction ys arbitrary: i) auto

lemma SquareNames_eval: "SquareNames =
  [''a1'', ''b1'', ''c1'', ''d1'', ''e1'', ''f1'', ''g1'', ''h1'',
   ''a2'', ''b2'', ''c2'', ''d2'', ''e2'', ''f2'', ''g2'', ''h2'',
   ''a3'', ''b3'', ''c3'', ''d3'', ''e3'', ''f3'', ''g3'', ''h3'',
   ''a4'', ''b4'', ''c4'', ''d4'', ''e4'', ''f4'', ''g4'', ''h4'',
   ''a5'', ''b5'', ''c5'', ''d5'', ''e5'', ''f5'', ''g5'', ''h5'',
   ''a6'', ''b6'', ''c6'', ''d6'', ''e6'', ''f6'', ''g6'', ''h6'',
   ''a7'', ''b7'', ''c7'', ''d7'', ''e7'', ''f7'', ''g7'', ''h7'',
   ''a8'', ''b8'', ''c8'', ''d8'', ''e8'', ''f8'', ''g8'', ''h8'']"
  by (simp add: SquareNames_def)

text \<open>
  C10: \<^verbatim>\<open>MoveFromUci\<close> returns \<^verbatim>\<open>nil\<close> exactly for the string \<^verbatim>\<open>0000\<close> and for strings
  whose length (in bytes) is neither 4 nor 5.  Every other string gives a move: a square
  name that is not in the name table becomes square 0 (a1), a four-byte string has no
  promotion, and a fifth byte that is no piece symbol gives no promotion.  Malformed
  input is therefore never reported.
\<close>

theorem MoveFromUci_never_rejects:
  "(MoveFromUci uci = None \<longleftrightarrow> uci = ''0000'' \<or> (length uci \<noteq> 4 \<and> length uci \<noteq> 5))
   \<and> (\<forall>m. MoveFromUci uci = Some m \<longrightarrow>
         (take 2 uci \<notin> set SquareNames \<longrightarrow> fromSquare m = 0)
       \<and> (take 2 (drop 2 uci) \<notin> set SquareNames \<longrightarrow> toSquare m = 0)
       \<and> (length uci = 4 \<longrightarrow> promotion m = NoneP)
       \<and> (length uci = 5 \<and> string_of_byte (uci ! 4) \<notin> set PieceSymbols \<longrightarrow> promotion m = NoneP))"
  by (auto simp: MoveFromUci_def NewMove_def square_loop_unknown symbol_loop_unknown)

text \<open>
  The malformed string \<^verbatim>\<open>z9e4x\<close>: the source square is unknown, the fifth byte is no piece
  symbol, and the move a1 to e4 without promotion comes back.
\<close>

theorem MoveFromUci_never_rejects_witness:
  "MoveFromUci ''z9e4x'' = Some \<lparr>fromSquare = 0, toSquare = 28, promotion = NoneP\<rparr>
   \<and> take 2 ''z9e4x'' \<notin> set SquareNames
   \<and> string_of_byte (''z9e4x'' ! 4) \<notin> set PieceSymbols
   \<and> ''z9e4x'' \<noteq> ''0000'' \<and> length ''z9e4x'' = 5"
proof -
  have h1: "take 2 ''z9e4x'' \<notin> set SquareNames" by (simp add: SquareNames_eval)
  have h2: "string_of_byte (''z9e4x'' ! 4) \<notin> set PieceSymbols"
    by (simp add: string_of_byte_def PieceSymbols_def)
  have "MoveFromUci ''z9e4x'' \<noteq> None" using MoveFromUci_never_rejects [of "''z9e4x''"] by simp
  then obtain m where m: "MoveFromUci ''z9e4x'' = Some m" by auto
  from MoveFromUci_never_rejects [of "''z9e4x''"] m h1 h2
  have "fromSquare m = 0" "promotion m = NoneP" by auto
  moreover have "toSquare m = 28" using m
    by (auto simp: MoveFromUci_def NewMove_def square_loop_def SquareNames_eval)
  ultimately have "m = \<lparr>fromSquare = 0, toSquare = 28, promotion = NoneP\<rparr>" by simp
  with m h1 h2 show ?thesis by simp
qed

section \<open>Claims about Push, Pop and the move count\<close>

text \<open>
  C2: \<^verbatim>\<open>PseudoLegalMoveCount\<close> is claimed to equal the length of the generated list in
  every position.  For White the two agree (\<open>count_matches_for_white\<close>).  For Black the
  count adds three per promoting single pawn push and forgets the push itself
  (\<open>count_short_for_black\<close>).  In the initial arrangement with Black to move (FEN
  \<^verbatim>\<open>rnbqkbnr/pppppppp/8/8/8/8/PPPPPPPP/RNBQKBNR b KQkq - 0 1\<close>) the eight single pushes
  are generated but not counted, whatever the other fields and the tables are.
\<close>

theorem PseudoLegalMoveCount_misses_black_pawn_pushes:
  "\<exists>ms n.
     GeneratePseudoLegalMoves T
       (b\<lparr>turn := Black, pawns := BBRank2 OR BBRank7,
          occupiedCo := (\<lambda>c. if c = White then BBRank1 OR BBRank2 else BBRank7 OR BBRank8),
          occupied := BBRank1 OR BBRank2 OR BBRank7 OR BBRank8\<rparr>)
       True True True True True True True = Some ms
     \<and> PseudoLegalMoveCount T
       (b\<lparr>turn := Black, pawns := BBRank2 OR BBRank7,
          occupiedCo := (\<lambda>c. if c = White then BBRank1 OR BBRank2 else BBRank7 OR BBRank8),
          occupied := BBRank1 OR BBRank2 OR BBRank7 OR BBRank8\<rparr>) = Some n
     \<and> int (length ms) = n + 8"
proof -
  define b0 where "b0 = b\<lparr>turn := Black, pawns := BBRank2 OR BBRank7,
          occupiedCo := (\<lambda>c. if c = White then BBRank1 OR BBRank2 else BBRank7 OR BBRank8),
          occupied := BBRank1 OR BBRank2 OR BBRank7 OR BBRank8\<rparr>"
  have t: "turn b0 = Black" by (simp add: b0_def)
  have "shiftDown (pawns b0 AND occupiedCo b0 Black) AND NOT (occupied b0) = 0xFF0000000000"
    by (simp add: b0_def mask_defs shift_defs)
  moreover have "popCount 0xFF0000000000 = 8" by (simp add: popCount_def popCount_loop.simps)
  ultimately have "popCount (shiftDown (pawns b0 AND occupiedCo b0 Black) AND NOT (occupied b0)) = 8"
    by simp
  with count_short_for_black [OF t, of T] show ?thesis unfolding b0_def by simp
qed

text \<open>
  C3: after \<^verbatim>\<open>Push\<close> every castling right is claimed to be cleared whose king or rook
  home square is the source or the destination of the move, so that a rook going from
  h1 to h8 revokes the rights of both squares.  The rights are updated by one
  \<^verbatim>\<open>if / else if\<close> chain, which stops at the first matching square: with all four
  rights set, the move h1-h8 clears White's king-side right only and Black's king-side
  right survives.
\<close>

theorem Push_rook_h1_h8_keeps_black_kingside_right:
  "castlingRights (Push T (b\<lparr>castlingRights := Castling\<rparr>) (Some (NewMove H1 H8 NoneP)))
     = CastlingWhiteQueenSide OR CastlingBlackKingSide OR CastlingBlackQueenSide
   \<and> (CastlingWhiteQueenSide OR CastlingBlackKingSide OR CastlingBlackQueenSide)
        AND CastlingBlackKingSide = CastlingBlackKingSide"
  by (simp add: castlingRights_Push castling_update_def NewMove_def square_defs castling_defs)

text \<open>
  C6: every \<^verbatim>\<open>Push\<close>, also of the null move, is claimed to add one to the occurrence
  count of the resulting hash.  \<^verbatim>\<open>Push\<close> of a real move does (\<open>Push_move_increments\<close>),
  but \<^verbatim>\<open>Push(nil)\<close> returns before the count is touched, while the matching \<^verbatim>\<open>Pop\<close>
  still subtracts one: after a null move and its \<^verbatim>\<open>Pop\<close> the count of the null-move
  position is one less than before.
\<close>

theorem Push_null_skips_transposition_count:
  "transpositions (Push T b None) = transpositions b
   \<and> (\<exists>b'. Pop T (Push T b None) = Some (b', None)
          \<and> count_of (transpositions b') (ZobristHash T (Push T b None))
              = count_of (transpositions b) (ZobristHash T (Push T b None)) - 1)"
proof -
  from Pop_null [of T b] obtain b' where
    "Pop T (Push T b None) = Some (b', None)"
    "transpositions b' = bump (transpositions b) (ZobristHash T (Push T b None)) (- 1)" by blast
  then show ?thesis by (auto simp: Push_null_fields(1) count_of_bump)
qed

end
